theory Spec2Isabelle
  imports Main "HOL-Library.Monad_Syntax"
begin

section \<open>Go slices, indices and run-time panics\<close>

text \<open>
  The package \<^verbatim>\<open>gostringlist\<close> keeps its items in a Go slice of strings. The
  model follows \<^verbatim>\<open>gostringlist.go\<close>, method by method; the repository also
  holds an earlier variant of that file, whose \<open>Insert\<close> has no check of the
  index, which is not modelled.

  A slice is modelled by the list of its visible elements (positions \<open>0\<close> up to
  \<open>len - 1\<close>); the nil slice and an allocated slice of length zero are both the
  empty list, as \<^verbatim>\<open>len\<close>, \<^verbatim>\<open>range\<close>, \<^verbatim>\<open>append\<close> and
  \<^verbatim>\<open>copy\<close> do not tell them apart. Capacity is not modelled: no method reads
  it, and the elements beyond \<open>len\<close> are never read back.

  Go's \<^verbatim>\<open>int\<close> is modelled by \<open>int\<close>. The only arithmetic of the source is
  \<open>index + 1\<close>, \<open>len - 1\<close> and \<open>len * 2 + 1\<close> on lengths of slices that
  exist in memory, far below \<open>2 ^ 63\<close>, so no operation wraps around.

  A run-time panic of a built-in operation (an index or a slice bound out of range) is
  the value \<open>None\<close> of an option result; a method that contains such operations
  returns an option, and \<open>Some\<close> means that it returned normally.
\<close>

definition index_get :: "'a list \<Rightarrow> int \<Rightarrow> 'a option" where
  \<comment> \<open>the read \<^verbatim>\<open>xs[i]\<close>\<close>
  "index_get xs i = (if 0 \<le> i \<and> i < int (length xs) then Some (xs ! nat i) else None)"

definition index_set :: "'a list \<Rightarrow> int \<Rightarrow> 'a \<Rightarrow> 'a list option" where
  \<comment> \<open>the assignment \<^verbatim>\<open>xs[i] = v\<close>\<close>
  "index_set xs i v = (if 0 \<le> i \<and> i < int (length xs) then Some (xs[nat i := v]) else None)"

definition slice_to :: "'a list \<Rightarrow> int \<Rightarrow> 'a list option" where
  \<comment> \<open>the slice expression \<^verbatim>\<open>xs[:hi]\<close>, for \<open>hi\<close> up to the length (Go allows
      \<open>hi\<close> up to the capacity; the source only shortens)\<close>
  "slice_to xs hi = (if 0 \<le> hi \<and> hi \<le> int (length xs) then Some (take (nat hi) xs) else None)"

definition copy_builtin :: "'a list \<Rightarrow> 'a list \<Rightarrow> 'a list" where
  \<comment> \<open>\<^verbatim>\<open>copy(dst, src)\<close> between two arrays: the new contents of \<open>dst\<close>; the
      number of elements copied is the smaller of the two lengths\<close>
  "copy_builtin dst src =
     (let n = min (length dst) (length src) in take n src @ drop n dst)"

definition copy_within :: "'a list \<Rightarrow> int \<Rightarrow> int \<Rightarrow> 'a list option" where
  \<comment> \<open>\<^verbatim>\<open>copy(xs[d:], xs[s:])\<close>, source and destination in the same array: the new
      contents of \<open>xs\<close>. Go's copy is correct for overlapping slices (the elements
      copied are those the source held before the call). Either slice expression
      panics when its low bound is outside \<open>0 .. len\<close>.\<close>
  "copy_within xs d s =
     (if 0 \<le> d \<and> d \<le> int (length xs) \<and> 0 \<le> s \<and> s \<le> int (length xs) then
        (let n = min (length xs - nat d) (length xs - nat s)
         in Some (take (nat d) xs @ take n (drop (nat s) xs) @ drop (nat d + n) xs))
      else None)"

section \<open>The StringList type\<close>

text \<open>
  Methods with a pointer receiver (\<open>Append\<close>, \<open>Insert\<close>, \<open>Remove\<close>,
  \<open>RemoveUnordered\<close>) return the list as they leave it. Methods with a value
  receiver work on a copy of the struct and contain no assignment to
  \<^verbatim>\<open>list.Items\<close> or to one of its elements, so they are functions of the list
  that return only their results. The one exception is \<open>Filter\<close>, which hands
  the slice to a function of the caller: it returns the list as the call leaves it as
  well.
\<close>

record StringList =
  Items :: "string list"

datatype error = errorString string
  \<comment> \<open>the value of \<^verbatim>\<open>errors.New(text)\<close>\<close>

definition New :: StringList where
  "New = \<lparr>Items = []\<rparr>"

definition Append :: "StringList \<Rightarrow> string \<Rightarrow> StringList" where
  "Append list str = list\<lparr>Items := Items list @ [str]\<rparr>"

definition Copy :: "StringList \<Rightarrow> StringList" where
  \<comment> \<open>\<^verbatim>\<open>var newList StringList\<close> is the zero value, whose \<open>Items\<close> is the nil
      slice; \<^verbatim>\<open>copy(newList.Items, list.Items)\<close> then writes into that slice\<close>
  "Copy list =
     (let newList = \<lparr>Items = []\<rparr>
      in newList\<lparr>Items := copy_builtin (Items newList) (Items list)\<rparr>)"

function IsEqual_loop :: "string list \<Rightarrow> string list \<Rightarrow> nat \<Rightarrow> bool option" where
  "IsEqual_loop items items2 i =
     (if i < length items then
        do {
          a \<leftarrow> index_get items (int i);
          b \<leftarrow> index_get items2 (int i);
          if a \<noteq> b then Some False else IsEqual_loop items items2 (Suc i)
        }
      else Some True)"
  by pat_completeness auto
termination
  by (relation "measure (\<lambda>(items, items2, i). length items - i)") auto

declare IsEqual_loop.simps [simp del]

definition IsEqual :: "StringList \<Rightarrow> StringList \<Rightarrow> bool option" where
  "IsEqual list list2 =
     (if length (Items list) \<noteq> length (Items list2) then Some False
      else IsEqual_loop (Items list) (Items list2) 0)"

definition IsEmpty :: "StringList \<Rightarrow> bool" where
  "IsEmpty list = (length (Items list) = 0)"

fun IndexOf_loop :: "string list \<Rightarrow> int \<Rightarrow> string \<Rightarrow> int" where
  "IndexOf_loop [] i str = - 1"
| "IndexOf_loop (v # vs) i str = (if str = v then i else IndexOf_loop vs (i + 1) str)"

definition IndexOf :: "StringList \<Rightarrow> string \<Rightarrow> int" where
  "IndexOf list str = IndexOf_loop (Items list) 0 str"

definition quoted :: "string \<Rightarrow> string" where
  \<comment> \<open>the expression that puts \<open>v\<close> between two double quote characters\<close>
  "quoted v = [CHR 0x22] @ v @ [CHR 0x22]"

fun ToString_loop :: "string list \<Rightarrow> string list \<Rightarrow> int \<Rightarrow> string list option" where
  "ToString_loop [] parts partsIndex = Some parts"
| "ToString_loop (v # vs) parts partsIndex =
     do {
       parts1 \<leftarrow> index_set parts partsIndex (quoted v);
       parts2 \<leftarrow> index_set parts1 (partsIndex + 1) '','';
       ToString_loop vs parts2 (partsIndex + 2)
     }"

definition ToString :: "StringList \<Rightarrow> string option" where
  "ToString list =
     do {
       let parts = replicate (length (Items list) * 2 + 1) [];
       parts1 \<leftarrow> index_set parts 0 ''['';
       parts2 \<leftarrow> ToString_loop (Items list) parts1 1;
       parts3 \<leftarrow> index_set parts2 (int (length parts2) - 1) '']'';
       Some (concat parts3)
     }"

fun Contains_loop :: "string list \<Rightarrow> string \<Rightarrow> bool" where
  "Contains_loop [] str = False"
| "Contains_loop (v # vs) str = (if str = v then True else Contains_loop vs str)"

definition Contains :: "StringList \<Rightarrow> string \<Rightarrow> bool" where
  "Contains list str = Contains_loop (Items list) str"

section \<open>Insertion and removal\<close>

text \<open>
  \<open>Insert\<close> returns a Go \<^verbatim>\<open>error\<close>, which is nil on success: the model returns
  the list as the call leaves it together with \<open>None\<close> for nil or \<open>Some\<close> of the
  error value.
\<close>

definition Insert :: "StringList \<Rightarrow> string \<Rightarrow> int \<Rightarrow> (StringList \<times> error option) option" where
  "Insert list str index =
     (if index < 0 \<or> index > int (length (Items list)) then
        Some (list, Some (errorString ''index out of range''))
      else do {
        let items1 = Items list @ [str];
        items2 \<leftarrow> copy_within items1 (index + 1) index;
        items3 \<leftarrow> index_set items2 index str;
        Some (list\<lparr>Items := items3\<rparr>, None)
      })"

definition Remove :: "StringList \<Rightarrow> string \<Rightarrow> StringList option" where
  "Remove list str =
     (let index = IndexOf list str in
      if index < 0 then Some list
      else do {
        items1 \<leftarrow> copy_within (Items list) index (index + 1);
        items2 \<leftarrow> slice_to items1 (int (length items1) - 1);
        Some (list\<lparr>Items := items2\<rparr>)
      })"

definition RemoveUnordered :: "StringList \<Rightarrow> string \<Rightarrow> StringList option" where
  "RemoveUnordered list str =
     (let index = IndexOf list str in
      if index < 0 then Some list
      else do {
        let length' = int (length (Items list));
        lastItem \<leftarrow> index_get (Items list) (length' - 1);
        items1 \<leftarrow> index_set (Items list) index lastItem;
        items2 \<leftarrow> slice_to items1 (length' - 1);
        Some (list\<lparr>Items := items2\<rparr>)
      })"

section \<open>Filters\<close>

text \<open>
  The function handed to \<open>Filter\<close> is a Go function value, which may be a closure
  over state of the caller. It is modelled as a function that also takes and returns
  that state \<open>'s\<close>, so that the calls \<open>Filter\<close> makes, and their order, show in
  the final state.

  \<open>Filter\<close> passes \<^verbatim>\<open>list.Items\<close> itself, so the function shares the
  array of the list and may assign to its elements; such writes are seen by the later
  calls and by the caller's list. The function therefore also returns the contents of
  the slice as it leaves them. It cannot change the length of the slice of the list,
  and the \<^verbatim>\<open>range\<close> clause reads the length once, before the first call: the
  loop runs over the indices below that length \<open>n\<close>.
\<close>

type_synonym 's filter_op =
  "int \<Rightarrow> string list \<Rightarrow> 's \<Rightarrow> (bool \<times> string) \<times> string list \<times> 's"

function Filter_loop ::
  "'s filter_op \<Rightarrow> nat \<Rightarrow> string list \<Rightarrow> nat \<Rightarrow> string list \<Rightarrow> 's \<Rightarrow>
   string list \<times> string list \<times> 's" where
  "Filter_loop op n items i newItems s =
     (if i < n then
        (case op (int i) items s of
           ((addItem, out), items', s') \<Rightarrow>
             Filter_loop op n items' (Suc i) (if addItem then newItems @ [out] else newItems) s')
      else (newItems, items, s))"
  by pat_completeness auto
termination
  by (relation "measure (\<lambda>(op, n, items, i, newItems, s). n - i)") auto

declare Filter_loop.simps [simp del]

definition Filter ::
  "StringList \<Rightarrow> 's filter_op \<Rightarrow> 's \<Rightarrow> StringList \<times> StringList \<times> 's" where
  \<comment> \<open>the new list, the list the method was called on as the call leaves it, and the
      state of the function\<close>
  "Filter list op s =
     (let newList = \<lparr>Items = []\<rparr>
      in case Filter_loop op (length (Items list)) (Items list) 0 (Items newList) s of
           (newItems, items', s') \<Rightarrow> (newList\<lparr>Items := newItems\<rparr>, list\<lparr>Items := items'\<rparr>, s'))"

definition read_only ::
  "(int \<Rightarrow> string list \<Rightarrow> 's \<Rightarrow> (bool \<times> string) \<times> 's) \<Rightarrow> 's filter_op" where
  \<comment> \<open>a function value that assigns to no element of the slice it is given\<close>
  "read_only f i items s = (case f i items s of (r, s') \<Rightarrow> (r, items, s'))"

definition pure_op :: "(int \<Rightarrow> string list \<Rightarrow> bool \<times> string) \<Rightarrow> 's filter_op" where
  \<comment> \<open>a function value without state that only reads the slice, such as
      \<^verbatim>\<open>toUpperOp\<close> of the tests\<close>
  "pure_op g i items s = (g i items, items, s)"

definition recorded :: "'s filter_op \<Rightarrow> ((int \<times> string list) list \<times> 's) filter_op" where
  \<comment> \<open>\<open>op\<close> wrapped by a caller that notes, at every call, the arguments it was given\<close>
  "recorded op i items =
     (\<lambda>(calls, s). case op i items s of
        (r, items', s') \<Rightarrow> (r, items', (calls @ [(i, items)], s')))"

definition overwrite_next :: "unit filter_op" where
  \<comment> \<open>the Go function that runs
      \<^verbatim>\<open>if index+1 < len(list) { list[index+1] = "X" }; return true, list[index]\<close>\<close>
  "overwrite_next index items s =
     (let items' = (if index + 1 < int (length items) then items[nat (index + 1) := ''X'']
                    else items)
      in ((True, items' ! nat index), items', s))"

definition keep_every_other :: "bool filter_op" where
  \<comment> \<open>a closure over a flag: it keeps the item, followed by a plus sign, at every call
      where the flag is set, and flips the flag\<close>
  "keep_every_other index items flag = ((flag, items ! nat index @ ''+''), items, \<not> flag)"

text \<open>
  The regular expressions are those of Go's standard library, which is not part of the
  repository. The three functions of package \<^verbatim>\<open>regexp\<close> the source calls are
  parameters of the model: \<open>Compile\<close> returns either the error or the compiled
  expression, \<open>MatchString\<close> and \<open>ReplaceAllString\<close> are the methods of a
  compiled expression.
\<close>

record ('re, 'err) regexp =
  Compile :: "string \<Rightarrow> 'err + 're"
  MatchString :: "'re \<Rightarrow> string \<Rightarrow> bool"
  ReplaceAllString :: "'re \<Rightarrow> string \<Rightarrow> string \<Rightarrow> string"

fun MatchFilter_loop :: "('re \<Rightarrow> string \<Rightarrow> bool) \<Rightarrow> 're \<Rightarrow> string list \<Rightarrow> string list \<Rightarrow> string list" where
  "MatchFilter_loop match re [] newItems = newItems"
| "MatchFilter_loop match re (item # items) newItems =
     MatchFilter_loop match re items (if match re item then newItems @ [item] else newItems)"

definition MatchFilter ::
  "('re, 'err) regexp \<Rightarrow> StringList \<Rightarrow> string \<Rightarrow> StringList \<times> 'err option" where
  "MatchFilter regexp list pattern =
     (let newList = \<lparr>Items = []\<rparr>
      in case Compile regexp pattern of
           Inl err \<Rightarrow> (newList, Some err)
         | Inr re \<Rightarrow>
             (newList\<lparr>Items := MatchFilter_loop (MatchString regexp) re (Items list) []\<rparr>, None))"

function ReplaceAllFilter_loop ::
  "('re \<Rightarrow> string \<Rightarrow> string \<Rightarrow> string) \<Rightarrow> 're \<Rightarrow> string \<Rightarrow> string list \<Rightarrow> nat \<Rightarrow> string list \<Rightarrow>
   string list option" where
  "ReplaceAllFilter_loop replace re repl items i newItems =
     (if i < length items then
        do {
          item \<leftarrow> index_get items (int i);
          let newString = replace re item repl;
          ReplaceAllFilter_loop replace re repl items (Suc i) (newItems @ [newString])
        }
      else Some newItems)"
  by pat_completeness auto
termination
  by (relation "measure (\<lambda>(replace, re, repl, items, i, newItems). length items - i)") auto

declare ReplaceAllFilter_loop.simps [simp del]

definition ReplaceAllFilter ::
  "('re, 'err) regexp \<Rightarrow> StringList \<Rightarrow> string \<Rightarrow> string \<Rightarrow> (StringList \<times> 'err option) option" where
  "ReplaceAllFilter regexp list pattern repl =
     (let newList = \<lparr>Items = []\<rparr>
      in case Compile regexp pattern of
           Inl err \<Rightarrow> Some (newList, Some err)
         | Inr re \<Rightarrow>
             do {
               newItems \<leftarrow> ReplaceAllFilter_loop (ReplaceAllString regexp) re repl (Items list) 0
                 (Items newList);
               Some (newList\<lparr>Items := newItems\<rparr>, None)
             })"

section \<open>Definitions used to state the properties\<close>

text \<open>
  One round of the loop of \<open>Filter\<close>, at index \<open>i\<close>: from the items kept
  so far, the contents of the slice of the list and the state of the function to the
  same three after the call.
\<close>

definition Filter_step ::
  "'s filter_op \<Rightarrow> string list \<times> string list \<times> 's \<Rightarrow> nat \<Rightarrow> string list \<times> string list \<times> 's" where
  "Filter_step op = (\<lambda>(newItems, items, s) i.
     case op (int i) items s of
       ((addItem, out), items', s') \<Rightarrow>
         (if addItem then newItems @ [out] else newItems, items', s'))"

text \<open>
  The rendering in the words of the specification, to compare \<open>ToString\<close> with:
  the items, each between double quotes, separated by commas, between brackets.
\<close>

fun comma_separated :: "string list \<Rightarrow> string" where
  "comma_separated [] = []"
| "comma_separated [x] = x"
| "comma_separated (x # y # ys) = x @ '','' @ comma_separated (y # ys)"

definition spec_rendering :: "string list \<Rightarrow> string" where
  "spec_rendering xs = ''['' @ comma_separated (map quoted xs) @ '']''"

text \<open>
  A stand-in for the regular expression engine, used to run the examples only. It
  compiles the one pattern of \<^verbatim>\<open>TestMatchFilter\<close> and returns an error for
  every other pattern; an item contains a match of that pattern exactly when it
  contains an upper-case ASCII letter. Its \<open>ReplaceAllString\<close> is a placeholder:
  no example calls it.
\<close>

definition upper_word_regexp :: "(unit, string) regexp" where
  "upper_word_regexp = \<lparr>
     Compile = (\<lambda>pattern.
       if pattern = ''[[:upper:]][[:lower:]]*'' then Inr ()
       else Inl (''error parsing regexp: '' @ pattern)),
     MatchString = (\<lambda>re item. list_ex (\<lambda>c. 65 \<le> (of_char c :: nat) \<and> (of_char c :: nat) \<le> 90) item),
     ReplaceAllString = (\<lambda>re src repl. src)\<rparr>"

section \<open>The built-in operations at indices in range\<close>

lemma index_set_nat: "i < length ys \<Longrightarrow> index_set ys (int i) v = Some (ys[i := v])"
  by (simp add: index_set_def)

lemma index_get_nat: "i < length ys \<Longrightarrow> index_get ys (int i) = Some (ys ! i)"
  by (simp add: index_get_def)

lemma slice_to_nat: "h \<le> length ys \<Longrightarrow> slice_to ys (int h) = Some (take h ys)"
  by (simp add: slice_to_def)

section \<open>Lookups: IndexOf and Contains\<close>

lemma IndexOf_loop_absent: "str \<notin> set vs \<Longrightarrow> IndexOf_loop vs i str = - 1"
  by (induction vs arbitrary: i) auto

lemma IndexOf_loop_present:
  "str \<in> set vs \<Longrightarrow>
   IndexOf_loop vs i str = i + int (length (takeWhile (\<lambda>v. v \<noteq> str) vs))"
  by (induction vs arbitrary: i) auto

lemma Contains_loop_set: "Contains_loop vs str = (str \<in> set vs)"
  by (induction vs) auto

lemma IndexOf_absent: "str \<notin> set (Items list) \<Longrightarrow> IndexOf list str = - 1"
  by (simp add: IndexOf_def IndexOf_loop_absent)

lemma IndexOf_present:
  "str \<in> set (Items list) \<Longrightarrow>
   IndexOf list str = int (length (takeWhile (\<lambda>v. v \<noteq> str) (Items list)))"
  by (simp add: IndexOf_def IndexOf_loop_present)

lemma first_occurrence_less:
  "str \<in> set vs \<Longrightarrow> length (takeWhile (\<lambda>v. v \<noteq> str) vs) < length vs"
  by (induction vs) auto

lemma first_occurrence_nth:
  "str \<in> set vs \<Longrightarrow> vs ! length (takeWhile (\<lambda>v. v \<noteq> str) vs) = str"
  by (induction vs) auto

lemma first_occurrence_before:
  "j < length (takeWhile (\<lambda>v. v \<noteq> str) vs) \<Longrightarrow> vs ! j \<noteq> str"
proof -
  assume lt: "j < length (takeWhile (\<lambda>v. v \<noteq> str) vs)"
  then have "takeWhile (\<lambda>v. v \<noteq> str) vs ! j \<in> set (takeWhile (\<lambda>v. v \<noteq> str) vs)"
    by (rule nth_mem)
  then have "takeWhile (\<lambda>v. v \<noteq> str) vs ! j \<noteq> str"
    by (rule set_takeWhileD [THEN conjunct2])
  with lt show ?thesis
    by (simp add: takeWhile_nth)
qed

text \<open>
  Claim C10. The two lookups agree on every list and every value: \<open>Contains\<close>
  returns true exactly when \<open>IndexOf\<close> returns an index that is not negative, and
  \<open>Contains\<close> returns false exactly when \<open>IndexOf\<close> returns the sentinel
  \<open>-1\<close>.
\<close>

theorem Contains_iff_IndexOf:
  "(Contains list str = (0 \<le> IndexOf list str)) \<and>
   ((\<not> Contains list str) = (IndexOf list str = - 1))"
proof (cases "str \<in> set (Items list)")
  case True
  then show ?thesis
    by (simp add: Contains_def Contains_loop_set IndexOf_present)
next
  case False
  then show ?thesis
    by (simp add: Contains_def Contains_loop_set IndexOf_absent)
qed

theorem Contains_iff_IndexOf_witness:
  "Contains \<lparr>Items = [''a'', ''b'', ''c'', ''d'']\<rparr> ''c'' \<and>
   IndexOf \<lparr>Items = [''a'', ''b'', ''c'', ''d'']\<rparr> ''c'' = 2 \<and>
   \<not> Contains \<lparr>Items = [''a'', ''b'', ''c'', ''d'']\<rparr> ''foo'' \<and>
   IndexOf \<lparr>Items = [''a'', ''b'', ''c'', ''d'']\<rparr> ''foo'' = - 1"
  using Contains_iff_IndexOf [of "\<lparr>Items = [''a'', ''b'', ''c'', ''d'']\<rparr>" "''c''"]
    Contains_iff_IndexOf [of "\<lparr>Items = [''a'', ''b'', ''c'', ''d'']\<rparr>" "''foo''"]
  by (simp add: IndexOf_def)

section \<open>Insert, Remove and RemoveUnordered\<close>

lemma copy_within_shift_right:
  assumes "i \<le> length xs"
  shows "copy_within (xs @ [v]) (int i + 1) (int i) = Some (take (Suc i) (xs @ [v]) @ drop i xs)"
proof -
  have n: "min (length (xs @ [v]) - nat (int i + 1)) (length (xs @ [v]) - nat (int i)) = length xs - i"
    by (simp add: nat_add_distrib)
  have "take (length xs - i) (drop i (xs @ [v])) = drop i xs"
    using assms by simp
  moreover have "drop (nat (int i + 1) + (length xs - i)) (xs @ [v]) = []"
    using assms by (simp add: nat_add_distrib)
  moreover have "take (nat (int i + 1)) (xs @ [v]) = take (Suc i) (xs @ [v])"
    by (simp add: nat_add_distrib)
  ultimately show ?thesis
    using assms unfolding copy_within_def Let_def n by simp
qed

lemma copy_within_shift_left:
  assumes "i < length xs"
  shows "copy_within xs (int i) (int i + 1) = Some (take i xs @ drop (Suc i) xs @ [last xs])"
proof -
  have n: "min (length xs - nat (int i)) (length xs - nat (int i + 1)) = length xs - Suc i"
    by (simp add: nat_add_distrib)
  have "take (length xs - Suc i) (drop (nat (int i + 1)) xs) = drop (Suc i) xs"
    by (simp add: nat_add_distrib)
  moreover have "drop (nat (int i) + (length xs - Suc i)) xs = [last xs]"
  proof -
    have "nat (int i) + (length xs - Suc i) = length xs - 1" using assms by simp
    moreover have "xs \<noteq> []" using assms by auto
    then have "drop (length xs - 1) xs = [last xs]"
      by (metis append_butlast_last_id append_eq_conv_conj length_butlast)
    ultimately show ?thesis by simp
  qed
  ultimately show ?thesis
    using assms unfolding copy_within_def Let_def n by simp
qed

lemma insert_by_update:
  assumes "i \<le> length xs"
  shows "(take (Suc i) (xs @ [v]) @ drop i xs)[i := v] = take i xs @ v # drop i xs"
proof (cases "i = length xs")
  case True
  then show ?thesis by (simp add: list_update_append)
next
  case False
  with assms have "i < length xs" by simp
  then show ?thesis
    by (simp add: take_Suc_conv_app_nth list_update_append)
qed

lemma Insert_valid_index:
  assumes "0 \<le> index" "index \<le> int (length (Items list))"
  shows "Insert list str index =
    Some (list\<lparr>Items := take (nat index) (Items list) @ str # drop (nat index) (Items list)\<rparr>, None)"
proof -
  obtain i where idx: "index = int i" and le: "i \<le> length (Items list)"
    using assms by (metis nat_0_le nat_le_iff of_nat_le_iff zle_int)
  let ?shifted = "take (Suc i) (Items list @ [str]) @ drop i (Items list)"
  have "i < length ?shifted"
    using le by simp
  then have "index_set ?shifted (int i) str = Some (?shifted[i := str])"
    by (rule index_set_nat)
  then have "index_set ?shifted (int i) str = Some (take i (Items list) @ str # drop i (Items list))"
    by (simp only: insert_by_update [OF le])
  moreover have "copy_within (Items list @ [str]) (int i + 1) (int i) = Some ?shifted"
    using le by (rule copy_within_shift_right)
  moreover have "\<not> (int i < 0 \<or> int i > int (length (Items list)))"
    using le by simp
  ultimately show ?thesis
    unfolding Insert_def idx Let_def by simp
qed

lemma Insert_rejected:
  assumes "index < 0 \<or> index > int (length (Items list))"
  shows "Insert list str index = Some (list, Some (errorString ''index out of range''))"
  using assms by (auto simp add: Insert_def)


lemma remove1_first_occurrence:
  "str \<in> set vs \<Longrightarrow>
   remove1 str vs = take (length (takeWhile (\<lambda>v. v \<noteq> str) vs)) vs @
                    drop (Suc (length (takeWhile (\<lambda>v. v \<noteq> str) vs))) vs"
  by (induction vs) auto

lemma Remove_present:
  assumes "str \<in> set (Items list)"
  shows "Remove list str = Some (list\<lparr>Items := remove1 str (Items list)\<rparr>)"
proof -
  define i where "i = length (takeWhile (\<lambda>v. v \<noteq> str) (Items list))"
  define shifted where
    "shifted = take i (Items list) @ drop (Suc i) (Items list) @ [last (Items list)]"
  have idx: "IndexOf list str = int i"
    using assms by (simp add: IndexOf_present i_def)
  have lt: "i < length (Items list)"
    using assms by (simp add: first_occurrence_less i_def)
  have removed: "remove1 str (Items list) = take i (Items list) @ drop (Suc i) (Items list)"
    unfolding i_def using assms by (rule remove1_first_occurrence)
  have cw: "copy_within (Items list) (int i) (int i + 1) = Some shifted"
    unfolding shifted_def using lt by (rule copy_within_shift_left)
  have len: "length shifted = length (Items list)"
    unfolding shifted_def using lt by simp
  have st: "slice_to shifted (int (length shifted) - 1) = Some (remove1 str (Items list))"
  proof -
    have "int (length shifted) - 1 = int (length (Items list) - 1)"
      using len lt by simp
    moreover have "take (length (Items list) - 1) shifted = remove1 str (Items list)"
      unfolding shifted_def removed using lt by simp
    moreover have "length (Items list) - 1 \<le> length shifted"
      using len by simp
    ultimately show ?thesis
      by (simp only: slice_to_nat)
  qed
  show ?thesis
    unfolding Remove_def Let_def idx by (simp add: cw st)
qed

lemma Remove_absent:
  assumes "str \<notin> set (Items list)"
  shows "Remove list str = Some list"
  using assms by (simp add: Remove_def IndexOf_absent)

lemma RemoveUnordered_present:
  assumes "str \<in> set (Items list)"
  shows "RemoveUnordered list str =
    Some (list\<lparr>Items := butlast ((Items list)[length (takeWhile (\<lambda>v. v \<noteq> str) (Items list)) := last (Items list)])\<rparr>)"
proof -
  define i where "i = length (takeWhile (\<lambda>v. v \<noteq> str) (Items list))"
  define n where "n = length (Items list) - 1"
  have idx: "IndexOf list str = int i"
    using assms by (simp add: IndexOf_present i_def)
  have lt: "i < length (Items list)"
    using assms by (simp add: first_occurrence_less i_def)
  then have ne: "Items list \<noteq> []"
    by auto
  have last_idx: "int (length (Items list)) - 1 = int n"
    using lt by (simp add: n_def)
  have n_lt: "n < length (Items list)"
    using lt by (simp add: n_def)
  have g: "index_get (Items list) (int n) = Some (last (Items list))"
  proof -
    have "index_get (Items list) (int n) = Some (Items list ! n)"
      using n_lt by (rule index_get_nat)
    moreover have "Items list ! n = last (Items list)"
      using ne by (simp add: last_conv_nth n_def)
    ultimately show ?thesis
      by (simp only:)
  qed
  have s: "index_set (Items list) (int i) (last (Items list)) = Some ((Items list)[i := last (Items list)])"
    using lt by (rule index_set_nat)
  have t: "slice_to ((Items list)[i := last (Items list)]) (int n) =
      Some (butlast ((Items list)[i := last (Items list)]))"
  proof -
    have "n \<le> length ((Items list)[i := last (Items list)])"
      using n_lt by simp
    then have "slice_to ((Items list)[i := last (Items list)]) (int n) =
        Some (take n ((Items list)[i := last (Items list)]))"
      by (rule slice_to_nat)
    moreover have "take n ((Items list)[i := last (Items list)]) =
        butlast ((Items list)[i := last (Items list)])"
      by (simp add: butlast_conv_take n_def)
    ultimately show ?thesis
      by (simp only:)
  qed
  show ?thesis
    unfolding RemoveUnordered_def idx Let_def i_def [symmetric] last_idx by (simp add: g s t)
qed

lemma RemoveUnordered_absent:
  assumes "str \<notin> set (Items list)"
  shows "RemoveUnordered list str = Some list"
  using assms by (simp add: RemoveUnordered_def IndexOf_absent)

text \<open>
  Claim C3. For every list, every value and every index that is negative or greater
  than the length, \<open>Insert\<close> returns normally with the error
  \<^verbatim>\<open>index out of range\<close> and leaves the list exactly as it was: nothing is
  written and the index is not clamped. The indices \<open>-1\<close> and \<open>length + 1\<close>
  are two such cases.
\<close>

theorem Insert_out_of_range:
  assumes "index < 0 \<or> index > int (length (Items list))"
  shows "Insert list str index = Some (list, Some (errorString ''index out of range''))"
  using assms by (rule Insert_rejected)

theorem Insert_out_of_range_witness:
  "((- 1 :: int) < 0 \<or> - 1 > int (length (Items \<lparr>Items = [''a'', ''b'', ''d'']\<rparr>))) \<and>
   Insert \<lparr>Items = [''a'', ''b'', ''d'']\<rparr> ''c'' (- 1) =
     Some (\<lparr>Items = [''a'', ''b'', ''d'']\<rparr>, Some (errorString ''index out of range'')) \<and>
   ((4 :: int) < 0 \<or> 4 > int (length (Items \<lparr>Items = [''a'', ''b'', ''d'']\<rparr>))) \<and>
   Insert \<lparr>Items = [''a'', ''b'', ''d'']\<rparr> ''c'' 4 =
     Some (\<lparr>Items = [''a'', ''b'', ''d'']\<rparr>, Some (errorString ''index out of range''))"
  using Insert_out_of_range [of "- 1" "\<lparr>Items = [''a'', ''b'', ''d'']\<rparr>" "''c''"]
    Insert_out_of_range [of 4 "\<lparr>Items = [''a'', ''b'', ''d'']\<rparr>" "''c''"]
  by simp

text \<open>
  Claim C4. For every list, every value and every index from \<open>0\<close> up to the
  length, \<open>Insert\<close> succeeds: the value stands at position \<open>index\<close>, the
  items before that position are unchanged, every item that was at position
  \<open>index\<close> or later stands one position later, the list is longer by one, and at
  \<open>index = length\<close> the result is that of \<open>Append\<close>.
\<close>

theorem Insert_in_range:
  assumes "0 \<le> index" and "index \<le> int (length (Items list))"
  shows "Insert list str index =
           Some (list\<lparr>Items := take (nat index) (Items list) @ str # drop (nat index) (Items list)\<rparr>,
                 None) \<and>
         (take (nat index) (Items list) @ str # drop (nat index) (Items list)) ! nat index = str \<and>
         (\<forall>j < nat index.
            (take (nat index) (Items list) @ str # drop (nat index) (Items list)) ! j = Items list ! j) \<and>
         (\<forall>j. nat index \<le> j \<and> j < length (Items list) \<longrightarrow>
            (take (nat index) (Items list) @ str # drop (nat index) (Items list)) ! Suc j =
              Items list ! j) \<and>
         length (take (nat index) (Items list) @ str # drop (nat index) (Items list)) =
           Suc (length (Items list)) \<and>
         (index = int (length (Items list)) \<longrightarrow> Insert list str index = Some (Append list str, None))"
proof -
  define i where "i = nat index"
  define xs where "xs = Items list"
  have le: "i \<le> length xs"
    using assms by (simp add: i_def xs_def)
  have res: "Insert list str index = Some (list\<lparr>Items := take i xs @ str # drop i xs\<rparr>, None)"
    unfolding i_def xs_def using assms by (rule Insert_valid_index)
  have at: "(take i xs @ str # drop i xs) ! i = str"
    using le by (simp add: nth_append)
  have before: "\<forall>j < i. (take i xs @ str # drop i xs) ! j = xs ! j"
    using le by (simp add: nth_append)
  have after: "\<forall>j. i \<le> j \<and> j < length xs \<longrightarrow> (take i xs @ str # drop i xs) ! Suc j = xs ! j"
    using le by (auto simp add: nth_append Suc_diff_le)
  have len: "length (take i xs @ str # drop i xs) = Suc (length xs)"
    using le by simp
  have app: "index = int (length xs) \<longrightarrow> Insert list str index = Some (Append list str, None)"
    unfolding res by (simp add: Append_def i_def xs_def)
  show ?thesis
    unfolding i_def [symmetric] xs_def [symmetric]
    by (rule conjI [OF res conjI [OF at conjI [OF before conjI [OF after conjI [OF len app]]]]])
qed

theorem Insert_in_range_witness:
  "(0 :: int) \<le> 2 \<and> 2 \<le> int (length (Items \<lparr>Items = [''a'', ''b'', ''d'']\<rparr>)) \<and>
   Insert \<lparr>Items = [''a'', ''b'', ''d'']\<rparr> ''c'' 2 =
     Some (\<lparr>Items = [''a'', ''b'', ''c'', ''d'']\<rparr>, None) \<and>
   (0 :: int) \<le> 3 \<and> 3 \<le> int (length (Items \<lparr>Items = [''a'', ''b'', ''d'']\<rparr>)) \<and>
   Insert \<lparr>Items = [''a'', ''b'', ''d'']\<rparr> ''c'' 3 =
     Some (Append \<lparr>Items = [''a'', ''b'', ''d'']\<rparr> ''c'', None) \<and>
   Append \<lparr>Items = [''a'', ''b'', ''d'']\<rparr> ''c'' = \<lparr>Items = [''a'', ''b'', ''d'', ''c'']\<rparr>"
  using Insert_in_range [of 2 "\<lparr>Items = [''a'', ''b'', ''d'']\<rparr>" "''c''"]
    Insert_in_range [of 3 "\<lparr>Items = [''a'', ''b'', ''d'']\<rparr>" "''c''"]
  by (simp add: Append_def)

text \<open>
  Claim C5. \<open>Remove\<close> deletes exactly the first occurrence of the value: when
  the value is in the list, the position \<open>IndexOf\<close> finds is the first one that
  holds it, the items before it stay, and the items after it follow in their order, each
  one position earlier; when the value is not in the list, the list is returned as it
  was. In both cases the call returns normally, and the result is the library's
  \<open>remove1\<close>.
\<close>

theorem Remove_first_occurrence:
  "Remove list str = Some (list\<lparr>Items := remove1 str (Items list)\<rparr>) \<and>
   (str \<in> set (Items list) \<longrightarrow>
      nat (IndexOf list str) < length (Items list) \<and>
      Items list ! nat (IndexOf list str) = str \<and>
      (\<forall>j < nat (IndexOf list str). Items list ! j \<noteq> str) \<and>
      Remove list str =
        Some (list\<lparr>Items := take (nat (IndexOf list str)) (Items list) @
                              drop (Suc (nat (IndexOf list str))) (Items list)\<rparr>)) \<and>
   (str \<notin> set (Items list) \<longrightarrow> Remove list str = Some list)"
proof -
  have absent: "str \<notin> set (Items list) \<longrightarrow> Remove list str = Some list"
    by (simp add: Remove_absent)
  have removed: "Remove list str = Some (list\<lparr>Items := remove1 str (Items list)\<rparr>)"
    by (cases "str \<in> set (Items list)") (simp_all add: Remove_present Remove_absent remove1_idem)
  have present: "str \<in> set (Items list) \<longrightarrow>
      nat (IndexOf list str) < length (Items list) \<and>
      Items list ! nat (IndexOf list str) = str \<and>
      (\<forall>j < nat (IndexOf list str). Items list ! j \<noteq> str) \<and>
      Remove list str =
        Some (list\<lparr>Items := take (nat (IndexOf list str)) (Items list) @
                              drop (Suc (nat (IndexOf list str))) (Items list)\<rparr>)"
  proof
    assume mem: "str \<in> set (Items list)"
    define i where "i = length (takeWhile (\<lambda>v. v \<noteq> str) (Items list))"
    have idx: "nat (IndexOf list str) = i"
      using mem by (simp add: IndexOf_present i_def)
    have 1: "i < length (Items list)"
      unfolding i_def using mem by (rule first_occurrence_less)
    have 2: "Items list ! i = str"
      unfolding i_def using mem by (rule first_occurrence_nth)
    have 3: "\<forall>j < i. Items list ! j \<noteq> str"
      unfolding i_def by (simp add: first_occurrence_before)
    have "remove1 str (Items list) = take i (Items list) @ drop (Suc i) (Items list)"
      unfolding i_def using mem by (rule remove1_first_occurrence)
    with removed have 4: "Remove list str =
        Some (list\<lparr>Items := take i (Items list) @ drop (Suc i) (Items list)\<rparr>)"
      by (simp only:)
    show "nat (IndexOf list str) < length (Items list) \<and>
      Items list ! nat (IndexOf list str) = str \<and>
      (\<forall>j < nat (IndexOf list str). Items list ! j \<noteq> str) \<and>
      Remove list str =
        Some (list\<lparr>Items := take (nat (IndexOf list str)) (Items list) @
                              drop (Suc (nat (IndexOf list str))) (Items list)\<rparr>)"
      unfolding idx by (rule conjI [OF 1 conjI [OF 2 conjI [OF 3 4]]])
  qed
  show ?thesis
    by (rule conjI [OF removed conjI [OF present absent]])
qed

theorem Remove_first_occurrence_witness:
  "''c'' \<in> set (Items \<lparr>Items = [''a'', ''b'', ''c'', ''d'']\<rparr>) \<and>
   Remove \<lparr>Items = [''a'', ''b'', ''c'', ''d'']\<rparr> ''c'' = Some \<lparr>Items = [''a'', ''b'', ''d'']\<rparr> \<and>
   ''x'' \<notin> set (Items \<lparr>Items = [''a'', ''b'', ''c'', ''d'']\<rparr>) \<and>
   Remove \<lparr>Items = [''a'', ''b'', ''c'', ''d'']\<rparr> ''x'' = Some \<lparr>Items = [''a'', ''b'', ''c'', ''d'']\<rparr>"
  using Remove_first_occurrence [of "\<lparr>Items = [''a'', ''b'', ''c'', ''d'']\<rparr>" "''c''"]
    Remove_first_occurrence [of "\<lparr>Items = [''a'', ''b'', ''c'', ''d'']\<rparr>" "''x''"]
  by (simp add: IndexOf_def)

text \<open>
  Claim C6. When the value is in the list, \<open>RemoveUnordered\<close> writes the last
  item into the slot of the first occurrence of the value and drops the last slot, so
  the list is shorter by exactly one; when the value is not in the list, the list is
  returned as it was.
\<close>

theorem RemoveUnordered_moves_last:
  "(str \<in> set (Items list) \<longrightarrow>
      nat (IndexOf list str) < length (Items list) \<and>
      Items list ! nat (IndexOf list str) = str \<and>
      (\<forall>j < nat (IndexOf list str). Items list ! j \<noteq> str) \<and>
      RemoveUnordered list str =
        Some (list\<lparr>Items := butlast ((Items list)[nat (IndexOf list str) := last (Items list)])\<rparr>) \<and>
      Suc (length (butlast ((Items list)[nat (IndexOf list str) := last (Items list)]))) =
        length (Items list)) \<and>
   (str \<notin> set (Items list) \<longrightarrow> RemoveUnordered list str = Some list)"
proof -
  have absent: "str \<notin> set (Items list) \<longrightarrow> RemoveUnordered list str = Some list"
    by (simp add: RemoveUnordered_absent)
  have present: "str \<in> set (Items list) \<longrightarrow>
      nat (IndexOf list str) < length (Items list) \<and>
      Items list ! nat (IndexOf list str) = str \<and>
      (\<forall>j < nat (IndexOf list str). Items list ! j \<noteq> str) \<and>
      RemoveUnordered list str =
        Some (list\<lparr>Items := butlast ((Items list)[nat (IndexOf list str) := last (Items list)])\<rparr>) \<and>
      Suc (length (butlast ((Items list)[nat (IndexOf list str) := last (Items list)]))) =
        length (Items list)"
  proof
    assume mem: "str \<in> set (Items list)"
    define i where "i = length (takeWhile (\<lambda>v. v \<noteq> str) (Items list))"
    have idx: "nat (IndexOf list str) = i"
      using mem by (simp add: IndexOf_present i_def)
    have 1: "i < length (Items list)"
      unfolding i_def using mem by (rule first_occurrence_less)
    have 2: "Items list ! i = str"
      unfolding i_def using mem by (rule first_occurrence_nth)
    have 3: "\<forall>j < i. Items list ! j \<noteq> str"
      unfolding i_def by (simp add: first_occurrence_before)
    have 4: "RemoveUnordered list str =
        Some (list\<lparr>Items := butlast ((Items list)[i := last (Items list)])\<rparr>)"
      unfolding i_def using mem by (rule RemoveUnordered_present)
    have 5: "Suc (length (butlast ((Items list)[i := last (Items list)]))) = length (Items list)"
      using 1 by simp
    show "nat (IndexOf list str) < length (Items list) \<and>
      Items list ! nat (IndexOf list str) = str \<and>
      (\<forall>j < nat (IndexOf list str). Items list ! j \<noteq> str) \<and>
      RemoveUnordered list str =
        Some (list\<lparr>Items := butlast ((Items list)[nat (IndexOf list str) := last (Items list)])\<rparr>) \<and>
      Suc (length (butlast ((Items list)[nat (IndexOf list str) := last (Items list)]))) =
        length (Items list)"
      unfolding idx by (rule conjI [OF 1 conjI [OF 2 conjI [OF 3 conjI [OF 4 5]]]])
  qed
  show ?thesis
    by (rule conjI [OF present absent])
qed

theorem RemoveUnordered_moves_last_witness:
  "''c'' \<in> set (Items \<lparr>Items = [''a'', ''b'', ''c'', ''d'', ''e'']\<rparr>) \<and>
   RemoveUnordered \<lparr>Items = [''a'', ''b'', ''c'', ''d'', ''e'']\<rparr> ''c'' =
     Some \<lparr>Items = [''a'', ''b'', ''e'', ''d'']\<rparr> \<and>
   ''x'' \<notin> set (Items \<lparr>Items = [''a'', ''b'', ''c'', ''d'', ''e'']\<rparr>) \<and>
   RemoveUnordered \<lparr>Items = [''a'', ''b'', ''c'', ''d'', ''e'']\<rparr> ''x'' =
     Some \<lparr>Items = [''a'', ''b'', ''c'', ''d'', ''e'']\<rparr>"
  using RemoveUnordered_moves_last [of "''c''" "\<lparr>Items = [''a'', ''b'', ''c'', ''d'', ''e'']\<rparr>"]
    RemoveUnordered_moves_last [of "''x''" "\<lparr>Items = [''a'', ''b'', ''c'', ''d'', ''e'']\<rparr>"]
  by (simp add: IndexOf_def)

section \<open>IsEqual and Copy\<close>

lemma IsEqual_loop_suffix:
  "length items = length items2 \<Longrightarrow>
   IsEqual_loop items items2 i = Some (drop i items = drop i items2)"
proof (induction items items2 i rule: IsEqual_loop.induct)
  case (1 items items2 i)
  show ?case
  proof (cases "i < length items")
    case True
    with "1.prems" have lt2: "i < length items2"
      by simp
    have split: "drop i items = items ! i # drop (Suc i) items"
      "drop i items2 = items2 ! i # drop (Suc i) items2"
      using True lt2 by (simp_all add: Cons_nth_drop_Suc)
    show ?thesis
    proof (cases "items ! i = items2 ! i")
      case same: True
      have "IsEqual_loop items items2 i = IsEqual_loop items items2 (Suc i)"
        using True lt2 same
        by (subst IsEqual_loop.simps) (simp add: index_get_nat)
      also have "\<dots> = Some (drop (Suc i) items = drop (Suc i) items2)"
        using True lt2 same "1.prems" by (intro "1.IH") (simp_all add: index_get_nat)
      finally show ?thesis
        using same by (simp add: split)
    next
      case False
      have "IsEqual_loop items items2 i = Some False"
        using True lt2 False
        by (subst IsEqual_loop.simps) (simp add: index_get_nat)
      then show ?thesis
        using False by (simp add: split)
    qed
  next
    case False
    with "1.prems" show ?thesis
      by (subst IsEqual_loop.simps) simp
  qed
qed

lemma IsEqual_iff: "IsEqual list list2 = Some (Items list = Items list2)"
  by (auto simp add: IsEqual_def IsEqual_loop_suffix)

lemma Copy_Items: "Items (Copy list) = []"
  by (simp add: Copy_def copy_builtin_def)

lemma IsEqual_Copy: "IsEqual list (Copy list) = Some (Items list = [])"
  by (simp add: IsEqual_iff Copy_Items)

text \<open>
  Claim C1. A copy should hold the same values at the same positions, so that
  \<open>IsEqual\<close> of a list and its copy is true. The source copies into the nil slice
  of a fresh \<open>StringList\<close>, and \<^verbatim>\<open>copy\<close> writes no more elements than its
  destination holds: \<open>Copy\<close> returns the empty list for every list
  (\<open>Copy_Items\<close>), and \<open>IsEqual\<close> of a list and its copy is true for the
  empty list only (\<open>IsEqual_Copy\<close>). At the list of \<open>a\<close>, \<open>b\<close>,
  \<open>c\<close> the copy is empty and \<open>IsEqual\<close> returns false.
\<close>

theorem Copy_keeps_no_item:
  "Copy \<lparr>Items = [''a'', ''b'', ''c'']\<rparr> = \<lparr>Items = []\<rparr> \<and>
   IsEqual \<lparr>Items = [''a'', ''b'', ''c'']\<rparr> (Copy \<lparr>Items = [''a'', ''b'', ''c'']\<rparr>) = Some False"
  by (simp add: Copy_def copy_builtin_def IsEqual_def)

section \<open>ToString\<close>

lemma take_two_updates:
  "Suc p < length xs \<Longrightarrow> take (Suc (Suc p)) (xs[p := a, Suc p := b]) = take p xs @ [a, b]"
  by (simp add: take_Suc_conv_app_nth nth_list_update)

lemma ToString_loop_fills:
  "length parts = p + 2 * length vs \<Longrightarrow>
   ToString_loop vs parts (int p) =
     Some (take p parts @ concat (map (\<lambda>v. [quoted v, '','']) vs))"
proof (induction vs arbitrary: parts p)
  case Nil
  then show ?case by simp
next
  case (Cons v vs)
  define parts2 where "parts2 = parts[p := quoted v, Suc p := '','']"
  have lt: "Suc p < length parts"
    using Cons.prems by simp
  have s1: "index_set parts (int p) (quoted v) = Some (parts[p := quoted v])"
    using lt by (intro index_set_nat) simp
  have s2: "index_set (parts[p := quoted v]) (int p + 1) '','' = Some parts2"
  proof -
    have "index_set (parts[p := quoted v]) (int (Suc p)) '','' = Some parts2"
      unfolding parts2_def using lt by (intro index_set_nat) simp
    then show ?thesis by (simp add: add.commute)
  qed
  have two: "take (Suc (Suc p)) parts2 = take p parts @ [quoted v, '','']"
    unfolding parts2_def using lt by (rule take_two_updates)
  have "ToString_loop vs parts2 (int p + 2) = ToString_loop vs parts2 (int (Suc (Suc p)))"
    by (simp add: add.commute)
  also have "\<dots> = Some (take (Suc (Suc p)) parts2 @ concat (map (\<lambda>v. [quoted v, '','']) vs))"
    using Cons.prems by (intro Cons.IH) (simp add: parts2_def)
  also have "\<dots> = Some (take p parts @ concat (map (\<lambda>v. [quoted v, '','']) (v # vs)))"
    by (simp add: two)
  finally have "ToString_loop vs parts2 (int p + 2) =
      Some (take p parts @ concat (map (\<lambda>v. [quoted v, '','']) (v # vs)))" .
  then show ?case
    by (simp add: s1 s2)
qed

lemma ToString_parts:
  "ToString list =
     Some (concat ((''['' # concat (map (\<lambda>v. [quoted v, '','']) (Items list)))
                     [2 * length (Items list) := '']'']))"
proof -
  define n where "n = length (Items list)"
  define parts where "parts = replicate (n * 2 + 1) ([] :: string)"
  define filled where "filled = ''['' # concat (map (\<lambda>v. [quoted v, '','']) (Items list))"
  have s0: "index_set parts 0 ''['' = Some (parts[0 := ''[''])"
    using index_set_nat [of 0 parts "''[''"] by (simp add: parts_def)
  have "ToString_loop (Items list) (parts[0 := ''['']) (int 1) =
      Some (take 1 (parts[0 := ''['']) @ concat (map (\<lambda>v. [quoted v, '','']) (Items list)))"
    by (rule ToString_loop_fills) (simp add: parts_def n_def)
  moreover have "take 1 (parts[0 := ''['']) = [''['']"
    by (simp add: parts_def)
  ultimately have s1: "ToString_loop (Items list) (parts[0 := ''['']) 1 = Some filled"
    by (simp add: filled_def)
  have len: "length filled = 2 * n + 1"
    by (simp add: filled_def n_def length_concat comp_def sum_list_triv)
  then have "int (length filled) - 1 = int (2 * n)"
    by simp
  moreover have "index_set filled (int (2 * n)) '']'' = Some (filled[2 * n := '']''])"
    using len by (intro index_set_nat) simp
  ultimately have s2: "index_set filled (int (length filled) - 1) '']'' = Some (filled[2 * n := '']''])"
    by (simp only:)
  show ?thesis
    unfolding ToString_def Let_def n_def [symmetric] parts_def [symmetric] filled_def [symmetric]
    by (simp add: s0 s1 s2)
qed

lemma concat_close_last:
  "xs \<noteq> [] \<Longrightarrow>
   concat ((concat (map (\<lambda>v. [f v, '','']) xs))[2 * length xs - 1 := z]) =
     comma_separated (map f xs) @ z"
proof (induction xs rule: induct_list012)
  case 1
  then show ?case by simp
next
  case (2 x)
  show ?case by simp
next
  case (3 x y ys)
  then show ?case by simp
qed

lemma ToString_empty: "ToString \<lparr>Items = []\<rparr> = Some '']''"
  by (simp add: ToString_parts)

lemma ToString_nonempty:
  assumes "Items list \<noteq> []"
  shows "ToString list = Some (spec_rendering (Items list))"
proof -
  define n where "n = length (Items list)"
  define body where "body = concat (map (\<lambda>v. [quoted v, '','']) (Items list))"
  have pos: "2 * n = Suc (2 * n - 1)"
    using assms by (simp add: n_def)
  have "(''['' # body)[2 * n := '']''] = ''['' # body[2 * n - 1 := '']'']"
    by (subst pos) simp
  then have "concat ((''['' # body)[2 * n := '']'']) = ''['' @ concat (body[2 * n - 1 := '']''])"
    by simp
  also have "concat (body[2 * n - 1 := '']'']) = comma_separated (map quoted (Items list)) @ '']''"
    unfolding body_def n_def using assms by (rule concat_close_last)
  finally show ?thesis
    unfolding ToString_parts spec_rendering_def body_def n_def by simp
qed

lemma ToString_two_items: \<open>ToString \<lparr>Items = [''a'', ''b'']\<rparr> = Some ''["a","b"]''\<close>
  by (simp add: ToString_nonempty spec_rendering_def quoted_def)

text \<open>
  Claim C2. Every list should render as its items between double quotes, separated by
  commas, between brackets, and the empty list as \<open>[]\<close>. \<open>ToString\<close> never
  panics (\<open>ToString_parts\<close>) and renders every list that has an item as the
  specification says (\<open>ToString_nonempty\<close>). For the empty list the slice of
  parts has one slot: the closing bracket is written over the opening one, and the
  result is the closing bracket alone.
\<close>

theorem ToString_empty_list:
  "ToString \<lparr>Items = []\<rparr> = Some '']'' \<and> spec_rendering [] = ''[]''"
  by (simp add: ToString_empty spec_rendering_def)

section \<open>Filter\<close>

lemma Filter_loop_fold:
  "Filter_loop op n items i newItems s =
     foldl (Filter_step op) (newItems, items, s) [i..<n]"
proof (induction op n items i newItems s rule: Filter_loop.induct)
  case (1 op n items i newItems s)
  show ?case
  proof (cases "i < n")
    case True
    obtain addItem out items' s' where r: "op (int i) items s = ((addItem, out), items', s')"
      by (cases "op (int i) items s") auto
    have "Filter_loop op n items i newItems s =
        Filter_loop op n items' (Suc i) (if addItem then newItems @ [out] else newItems) s'"
      using True r by (subst Filter_loop.simps) simp
    also have "\<dots> = foldl (Filter_step op)
        (if addItem then newItems @ [out] else newItems, items', s') [Suc i..<n]"
      using True r by (intro "1.IH") simp_all
    also have "\<dots> = foldl (Filter_step op) (newItems, items, s) [i..<n]"
      using True r by (simp add: upt_conv_Cons Filter_step_def)
    finally show ?thesis .
  next
    case False
    then show ?thesis
      by (subst Filter_loop.simps) simp
  qed
qed

lemma Filter_fold:
  "Filter list op s =
     (case foldl (Filter_step op) ([], Items list, s) [0..<length (Items list)] of
        (newItems, items', s') \<Rightarrow> (\<lparr>Items = newItems\<rparr>, list\<lparr>Items := items'\<rparr>, s'))"
  by (simp add: Filter_def Filter_loop_fold)

lemma fold_recorded:
  "\<exists>cs. foldl (Filter_step (recorded op)) (newItems, items, (calls, s)) js =
          (case foldl (Filter_step op) (newItems, items, s) js of
             (newItems', items', s') \<Rightarrow> (newItems', items', (calls @ cs, s'))) \<and>
        map fst cs = map int js"
proof (induction js arbitrary: newItems items calls s)
  case Nil
  then show ?case by simp
next
  case (Cons j js)
  obtain addItem out items1 s1 where r: "op (int j) items s = ((addItem, out), items1, s1)"
    by (cases "op (int j) items s") auto
  define kept where "kept = (if addItem then newItems @ [out] else newItems)"
  have plain: "Filter_step op (newItems, items, s) j = (kept, items1, s1)"
    by (simp add: Filter_step_def r kept_def)
  have noted: "Filter_step (recorded op) (newItems, items, (calls, s)) j =
      (kept, items1, (calls @ [(int j, items)], s1))"
    by (simp add: Filter_step_def recorded_def r kept_def)
  obtain cs where cs:
    "foldl (Filter_step (recorded op)) (kept, items1, (calls @ [(int j, items)], s1)) js =
       (case foldl (Filter_step op) (kept, items1, s1) js of
          (newItems', items', s') \<Rightarrow> (newItems', items', ((calls @ [(int j, items)]) @ cs, s')))"
    "map fst cs = map int js"
    using Cons.IH [of kept items1 "calls @ [(int j, items)]" s1] by blast
  have "foldl (Filter_step (recorded op)) (newItems, items, (calls, s)) (j # js) =
      (case foldl (Filter_step op) (newItems, items, s) (j # js) of
         (newItems', items', s') \<Rightarrow> (newItems', items', (calls @ ((int j, items) # cs), s')))"
    by (simp add: plain noted cs(1))
  moreover have "map fst ((int j, items) # cs) = map int (j # js)"
    by (simp add: cs(2))
  ultimately show ?case
    by blast
qed

lemma fold_read_only:
  "foldl (Filter_step (recorded (read_only f))) (newItems, items, (calls, s)) js =
     (case foldl (Filter_step (read_only f)) (newItems, items, s) js of
        (newItems', items', s') \<Rightarrow>
          (newItems', items, (calls @ map (\<lambda>i. (int i, items)) js, s')))"
  by (induction js arbitrary: newItems calls s)
    (simp_all add: Filter_step_def recorded_def read_only_def split: prod.splits)

lemma fold_pure_op:
  "foldl (Filter_step (pure_op g)) (newItems, items, s) js =
     (newItems @ map (\<lambda>i. snd (g (int i) items)) (filter (\<lambda>i. fst (g (int i) items)) js),
      items, s)"
  by (induction js arbitrary: newItems)
    (simp_all add: Filter_step_def pure_op_def split: prod.splits)

lemma Filter_recorded:
  "case Filter list (recorded op) ([], s) of
     (newList, list', (calls, s')) \<Rightarrow>
       (newList, list', s') = Filter list op s \<and>
       map fst calls = map int [0..<length (Items list)]"
proof -
  obtain cs where cs:
    "foldl (Filter_step (recorded op)) ([], Items list, ([], s)) [0..<length (Items list)] =
       (case foldl (Filter_step op) ([], Items list, s) [0..<length (Items list)] of
          (newItems', items', s') \<Rightarrow> (newItems', items', ([] @ cs, s')))"
    "map fst cs = map int [0..<length (Items list)]"
    using fold_recorded [of op "[]" "Items list" "[]" s "[0..<length (Items list)]"] by blast
  obtain newItems items' s' where
    r: "foldl (Filter_step op) ([], Items list, s) [0..<length (Items list)] = (newItems, items', s')"
    by (cases "foldl (Filter_step op) ([], Items list, s) [0..<length (Items list)]") auto
  show ?thesis
    by (simp add: Filter_fold cs r)
qed

lemma Filter_read_only:
  "Filter list (recorded (read_only f)) ([], s) =
     (case Filter list (read_only f) s of
        (newList, list', s') \<Rightarrow>
          (newList, list, (map (\<lambda>i. (int i, Items list)) [0..<length (Items list)], s')))"
  by (simp add: Filter_fold fold_read_only split: prod.splits)

lemma Filter_pure_op:
  "Filter list (pure_op g) s =
     (\<lparr>Items = map (\<lambda>i. snd (g (int i) (Items list)))
                 (filter (\<lambda>i. fst (g (int i) (Items list))) [0..<length (Items list)])\<rparr>,
      list, s)"
  by (simp add: Filter_fold fold_pure_op)

text \<open>
  Claim C7, as it is stated, fails for a function that assigns to the slice it is
  given. \<open>Filter\<close> passes the slice of the list itself: the function
  \<open>overwrite_next\<close> writes into the element after the one it is called for, the
  second and later calls receive a sequence that is no longer the original one, the
  result holds the overwritten values, and the list the method was called on is
  changed when the call returns.
\<close>

theorem Filter_overwriting_function:
  "Filter \<lparr>Items = [''a'', ''b'', ''c'', ''d'']\<rparr> (recorded overwrite_next) ([], ()) =
     (\<lparr>Items = [''a'', ''X'', ''X'', ''X'']\<rparr>,
      \<lparr>Items = [''a'', ''X'', ''X'', ''X'']\<rparr>,
      ([(0, [''a'', ''b'', ''c'', ''d'']), (1, [''a'', ''X'', ''c'', ''d'']),
        (2, [''a'', ''X'', ''X'', ''d'']), (3, [''a'', ''X'', ''X'', ''X''])], ())) \<and>
   fst (snd (Filter \<lparr>Items = [''a'', ''b'', ''c'', ''d'']\<rparr> overwrite_next ())) \<noteq>
     \<lparr>Items = [''a'', ''b'', ''c'', ''d'']\<rparr>"
  by (simp add: Filter_fold Filter_step_def recorded_def overwrite_next_def upt_conv_Cons)

text \<open>
  Claim C7, amended. For every list and every function, \<open>Filter\<close> runs one round
  of its loop for every index of the list, in ascending order: it calls the function
  with the index and the slice of the list, and appends the value returned to the
  result when the function returns true. Recording the calls changes nothing else, and
  the indices recorded are \<open>0, \<dots>, n - 1\<close>. \<open>Filter\<close> itself writes nothing
  to the list: for every function that assigns to no element of the slice, every call
  receives the original sequence and the list is unchanged when the call returns. For
  such a function without state the result holds, in the order of the indices, the
  value returned at every index where the function returned true.
\<close>

theorem Filter_calls_and_result:
  "Filter list op s =
     (case foldl (Filter_step op) ([], Items list, s) [0..<length (Items list)] of
        (newItems, items', s') \<Rightarrow> (\<lparr>Items = newItems\<rparr>, list\<lparr>Items := items'\<rparr>, s')) \<and>
   (case Filter list (recorded op) ([], s) of
      (newList, list', (calls, s')) \<Rightarrow>
        (newList, list', s') = Filter list op s \<and>
        map fst calls = map int [0..<length (Items list)]) \<and>
   Filter list (recorded (read_only f)) ([], s) =
     (case Filter list (read_only f) s of
        (newList, list', s') \<Rightarrow>
          (newList, list, (map (\<lambda>i. (int i, Items list)) [0..<length (Items list)], s'))) \<and>
   Filter list (pure_op g) s =
     (\<lparr>Items = map (\<lambda>i. snd (g (int i) (Items list)))
                 (filter (\<lambda>i. fst (g (int i) (Items list))) [0..<length (Items list)])\<rparr>,
      list, s)"
  by (rule conjI [OF Filter_fold conjI [OF Filter_recorded conjI [OF Filter_read_only Filter_pure_op]]])

theorem Filter_calls_and_result_witness:
  "Filter \<lparr>Items = [''a'', ''b'', ''c'', ''d'', ''e'']\<rparr> keep_every_other True =
     (\<lparr>Items = [''a+'', ''c+'', ''e+'']\<rparr>, \<lparr>Items = [''a'', ''b'', ''c'', ''d'', ''e'']\<rparr>, False) \<and>
   Filter \<lparr>Items = [''a'', ''b'', ''c'', ''d'']\<rparr>
     (recorded (read_only (\<lambda>i items s. ((items ! nat i \<noteq> ''b'', items ! nat i @ ''!''), s))))
     ([], ()) =
     (\<lparr>Items = [''a!'', ''c!'', ''d!'']\<rparr>, \<lparr>Items = [''a'', ''b'', ''c'', ''d'']\<rparr>,
      ([(0, [''a'', ''b'', ''c'', ''d'']), (1, [''a'', ''b'', ''c'', ''d'']),
        (2, [''a'', ''b'', ''c'', ''d'']), (3, [''a'', ''b'', ''c'', ''d''])], ()))"
  using Filter_calls_and_result [of "\<lparr>Items = [''a'', ''b'', ''c'', ''d'', ''e'']\<rparr>"
      keep_every_other True
      "\<lambda>i items s. ((items ! nat i \<noteq> ''b'', items ! nat i @ ''!''), s)"
      "\<lambda>i items. (items ! nat i \<noteq> ''b'', items ! nat i @ ''!'')"]
    Filter_calls_and_result [of "\<lparr>Items = [''a'', ''b'', ''c'', ''d'']\<rparr>"
      "read_only (\<lambda>i items s. ((items ! nat i \<noteq> ''b'', items ! nat i @ ''!''), s))" "()"
      "\<lambda>i items s. ((items ! nat i \<noteq> ''b'', items ! nat i @ ''!''), s)"
      "\<lambda>i items. (items ! nat i \<noteq> ''b'', items ! nat i @ ''!'')"]
  by (simp add: Filter_step_def keep_every_other_def read_only_def upt_conv_Cons)

section \<open>MatchFilter and ReplaceAllFilter\<close>

lemma MatchFilter_loop_filter:
  "MatchFilter_loop match re items newItems = newItems @ filter (match re) items"
  by (induction items arbitrary: newItems) simp_all

lemma ReplaceAllFilter_loop_map:
  "ReplaceAllFilter_loop replace re repl items i newItems =
     Some (newItems @ map (\<lambda>item. replace re item repl) (drop i items))"
proof (induction replace re repl items i newItems rule: ReplaceAllFilter_loop.induct)
  case (1 replace re repl items i newItems)
  show ?case
  proof (cases "i < length items")
    case True
    have "ReplaceAllFilter_loop replace re repl items i newItems =
        ReplaceAllFilter_loop replace re repl items (Suc i) (newItems @ [replace re (items ! i) repl])"
      using True by (subst ReplaceAllFilter_loop.simps) (simp add: index_get_nat)
    also have "\<dots> = Some ((newItems @ [replace re (items ! i) repl]) @
        map (\<lambda>item. replace re item repl) (drop (Suc i) items))"
      using True by (intro "1.IH") (simp_all add: index_get_nat)
    also have "\<dots> = Some (newItems @ map (\<lambda>item. replace re item repl) (drop i items))"
      using True by (simp add: Cons_nth_drop_Suc [symmetric])
    finally show ?thesis .
  next
    case False
    then show ?thesis
      by (subst ReplaceAllFilter_loop.simps) simp
  qed
qed

lemma ReplaceAllFilter_valid_pattern:
  assumes "Compile regexp pattern = Inr re"
  shows "ReplaceAllFilter regexp list pattern repl =
           Some (\<lparr>Items = map (\<lambda>item. ReplaceAllString regexp re item repl) (Items list)\<rparr>, None)"
  using assms by (simp add: ReplaceAllFilter_def ReplaceAllFilter_loop_map)

text \<open>
  Claim C8. For every list and every pattern that compiles, \<open>MatchFilter\<close>
  returns no error and a new list that holds, in their order in the list, exactly the
  items in which \<open>MatchString\<close> of the compiled pattern finds a match. The example
  is that of the tests, run with the stand-in engine.
\<close>

theorem MatchFilter_valid_pattern:
  assumes "Compile regexp pattern = Inr re"
  shows "MatchFilter regexp list pattern =
           (\<lparr>Items = filter (MatchString regexp re) (Items list)\<rparr>, None)"
  using assms by (simp add: MatchFilter_def MatchFilter_loop_filter)

theorem MatchFilter_valid_pattern_witness:
  "Compile upper_word_regexp ''[[:upper:]][[:lower:]]*'' = Inr () \<and>
   MatchFilter upper_word_regexp \<lparr>Items = [''apple'', ''Banana'', ''orange'', ''Pear'']\<rparr>
     ''[[:upper:]][[:lower:]]*'' = (\<lparr>Items = [''Banana'', ''Pear'']\<rparr>, None)"
  using MatchFilter_valid_pattern [of upper_word_regexp "''[[:upper:]][[:lower:]]*''" "()"
      "\<lparr>Items = [''apple'', ''Banana'', ''orange'', ''Pear'']\<rparr>"]
  by (simp add: upper_word_regexp_def)

text \<open>
  Claim C9. For every list and every pattern that does not compile, \<open>MatchFilter\<close>
  and \<open>ReplaceAllFilter\<close> both return the error of \<open>Compile\<close> as it is,
  together with a list without items. Both only read the list they are called on.
\<close>

theorem compile_error_returned:
  assumes "Compile regexp pattern = Inl err"
  shows "MatchFilter regexp list pattern = (\<lparr>Items = []\<rparr>, Some err) \<and>
         ReplaceAllFilter regexp list pattern repl = Some (\<lparr>Items = []\<rparr>, Some err)"
  using assms by (simp add: MatchFilter_def ReplaceAllFilter_def)

theorem compile_error_returned_witness:
  "Compile upper_word_regexp ''a(b'' = Inl ''error parsing regexp: a(b'' \<and>
   MatchFilter upper_word_regexp \<lparr>Items = [''apple'', ''Banana'']\<rparr> ''a(b'' =
     (\<lparr>Items = []\<rparr>, Some ''error parsing regexp: a(b'') \<and>
   ReplaceAllFilter upper_word_regexp \<lparr>Items = [''apple'', ''Banana'']\<rparr> ''a(b'' ''A'' =
     Some (\<lparr>Items = []\<rparr>, Some ''error parsing regexp: a(b'')"
  using compile_error_returned [of upper_word_regexp "''a(b''" "''error parsing regexp: a(b''"
      "\<lparr>Items = [''apple'', ''Banana'']\<rparr>" "''A''"]
  by (simp add: upper_word_regexp_def)

end
